theory Spec2Isabelle
  imports
    Main
    "HOL-Library.Char_ord"
    "HOL-Library.List_Lexorder"
    "HOL-Library.Product_Lexorder"
    "HOL-Library.Sublist"
    "HOL-Library.Multiset"
begin

section \<open>Python values used by \<open>bin_by_funding.py\<close>\<close>

text \<open>
  The rows the two venues return are JSON objects that \<open>resp.json()\<close> turns into Python
  dictionaries. A dictionary is a partial map from keys to values; the values the program
  reads are scalars: \<open>None\<close> (JSON \<open>null\<close>), integers and strings. Floats, booleans and
  nested containers inside a row are outside the model. Characters are the code points
  below 256.
\<close>

datatype jval = JNull | JInt int | JStr string

type_synonym row = "string \<rightharpoonup> jval"

datatype error =
    RuntimeError string
  | HTTPError
  | KeyError string
  | TypeError
  | ValueError
  | AttributeError
  | InvalidOperation
  | Overflow

text \<open>\<open>d.get(k)\<close> and \<open>d.get(k, default)\<close>.\<close>

definition get :: "row \<Rightarrow> string \<Rightarrow> jval" where
  "get d k = (case d k of None \<Rightarrow> JNull | Some v \<Rightarrow> v)"

definition get_default :: "row \<Rightarrow> string \<Rightarrow> jval \<Rightarrow> jval" where
  "get_default d k dflt = (case d k of None \<Rightarrow> dflt | Some v \<Rightarrow> v)"

text \<open>\<open>d[k]\<close> raises \<open>KeyError\<close> on a missing key.\<close>

definition subscript :: "row \<Rightarrow> string \<Rightarrow> error + jval" where
  "subscript d k = (case d k of None \<Rightarrow> Inl (KeyError k) | Some v \<Rightarrow> Inr v)"

text \<open>Truth value of a scalar, as \<open>not x\<close> and \<open>x or y\<close> test it.\<close>

fun truthy :: "jval \<Rightarrow> bool" where
  "truthy JNull = False"
| "truthy (JInt n) = (n \<noteq> 0)"
| "truthy (JStr s) = (s \<noteq> [])"

definition py_or :: "jval \<Rightarrow> jval \<Rightarrow> jval" where
  "py_or a b = (if truthy a then a else b)"

subsection \<open>Strings and integers\<close>

definition is_space :: "char \<Rightarrow> bool" where
  "is_space c \<longleftrightarrow> c \<in> set [CHR 0x09, CHR 0x0A, CHR 0x0B, CHR 0x0C, CHR 0x0D,
     CHR 0x1C, CHR 0x1D, CHR 0x1E, CHR 0x1F, CHR 0x20, CHR 0x85, CHR 0xA0]"

definition strip :: "string \<Rightarrow> string" where
  "strip s = rev (dropWhile is_space (rev (dropWhile is_space s)))"

definition is_digit :: "char \<Rightarrow> bool" where
  "is_digit c \<longleftrightarrow> c \<in> set ''0123456789''"

definition digit_val :: "char \<Rightarrow> nat" where
  "digit_val c = (case map_of (zip ''0123456789'' [0, 1, 2, 3, 4, 5, 6, 7, 8, 9]) c of
     None \<Rightarrow> 0 | Some d \<Rightarrow> d)"

definition nat_of_digits :: "string \<Rightarrow> nat" where
  "nat_of_digits s = foldl (\<lambda>a c. 10 * a + digit_val c) 0 s"

definition lower :: "char \<Rightarrow> char" where
  "lower c = (case map_of (zip ''ABCDEFGHIJKLMNOPQRSTUVWXYZ'' ''abcdefghijklmnopqrstuvwxyz'') c of
     None \<Rightarrow> c | Some l \<Rightarrow> l)"

definition split_sign :: "string \<Rightarrow> bool \<times> string" where
  "split_sign s = (case s of
       [] \<Rightarrow> (False, [])
     | c # r \<Rightarrow> if c = CHR ''-'' then (True, r) else if c = CHR ''+'' then (False, r) else (False, s))"

text \<open>
  After a digit of an integer literal: more digits, each group separated by one
  underscore.
\<close>

fun digits_us :: "string \<Rightarrow> bool" where
  "digits_us [] = True"
| "digits_us (c # cs) =
     (if is_digit c then digits_us cs
      else c = CHR ''_'' \<and> (case cs of [] \<Rightarrow> False | d # _ \<Rightarrow> is_digit d \<and> digits_us cs))"

text \<open>
  \<open>int(s)\<close> for a string: surrounding whitespace is dropped, then an optional sign and a
  decimal literal. (CPython's configurable limit on the length of such literals, 4300 digits
  by default, is a setting of the interpreter and is not part of the model.)
\<close>

definition int_of_str :: "string \<Rightarrow> error + int" where
  "int_of_str s =
     (let (neg, r) = split_sign (strip s) in
      case r of
        [] \<Rightarrow> Inl ValueError
      | c # cs \<Rightarrow>
          if is_digit c \<and> digits_us cs
          then (let n = int (nat_of_digits (filter (\<lambda>x. x \<noteq> CHR ''_'') r))
                in Inr (if neg then - n else n))
          else Inl ValueError)"

text \<open>\<open>int(x)\<close>.\<close>

fun py_int :: "jval \<Rightarrow> error + int" where
  "py_int (JInt n) = Inr n"
| "py_int (JStr s) = int_of_str s"
| "py_int JNull = Inl TypeError"

text \<open>\<open>str(x)\<close>.\<close>

fun str_of_nat :: "nat \<Rightarrow> string" where
  "str_of_nat n =
     (if n < 10 then [''0123456789'' ! n]
      else str_of_nat (n div 10) @ [''0123456789'' ! (n mod 10)])"

declare str_of_nat.simps [simp del]

definition str_of_int :: "int \<Rightarrow> string" where
  "str_of_int i = (if i < 0 then CHR ''-'' # str_of_nat (nat (- i)) else str_of_nat (nat i))"

fun py_str :: "jval \<Rightarrow> string" where
  "py_str (JStr s) = s"
| "py_str (JInt n) = str_of_int n"
| "py_str JNull = ''None''"

text \<open>
  \<open>s.replace(old, new)\<close> for a non-empty \<open>old\<close>: one pass from the left, replacing
  every occurrence that does not overlap an occurrence already replaced.
\<close>

fun replace :: "string \<Rightarrow> string \<Rightarrow> string \<Rightarrow> string" where
  "replace old new [] = []"
| "replace old new (c # cs) =
     (if old \<noteq> [] \<and> prefix old (c # cs)
      then new @ replace old new (drop (length old - 1) cs)
      else c # replace old new cs)"

subsection \<open>\<open>decimal.Decimal\<close>\<close>

text \<open>
  A \<open>Decimal\<close> is a sign (\<open>True\<close> for negative), a coefficient and an exponent, or one of
  the special values: an infinity, or a quiet or signalling NaN with its payload.
\<close>

datatype decimal = Finite bool nat int | Infinity bool | NaN bool bool nat

text \<open>
  \<open>Decimal(s)\<close> for a string \<open>s\<close>: whitespace around the text and every underscore are
  dropped; what remains is an optional sign followed by a number (digits with an optional
  fraction and an optional exponent, at least one digit), by \<open>Inf\<close> or \<open>Infinity\<close>, or
  by \<open>NaN\<close> or \<open>sNaN\<close> with optional payload digits, letters in either case. Any other
  text raises \<open>InvalidOperation\<close>.
\<close>

definition parse_exponent :: "string \<Rightarrow> int option" where
  "parse_exponent r =
     (case r of
        [] \<Rightarrow> Some 0
      | c # t \<Rightarrow>
          if lower c = CHR ''e''
          then (let (neg, d) = split_sign t in
                if d \<noteq> [] \<and> list_all is_digit d
                then Some (if neg then - int (nat_of_digits d) else int (nat_of_digits d))
                else None)
          else None)"

definition parse_number :: "bool \<Rightarrow> string \<Rightarrow> error + decimal" where
  "parse_number sg r =
     (let ip = takeWhile is_digit r;
          r1 = dropWhile is_digit r;
          (fp, r2) = (case r1 of
                        [] \<Rightarrow> ([], [])
                      | c # t \<Rightarrow> if c = CHR ''.''
                                 then (takeWhile is_digit t, dropWhile is_digit t)
                                 else ([], r1))
      in if ip = [] \<and> fp = [] then Inl InvalidOperation
         else (case parse_exponent r2 of
                 None \<Rightarrow> Inl InvalidOperation
               | Some e \<Rightarrow> Inr (Finite sg (nat_of_digits (ip @ fp)) (e - int (length fp)))))"

definition Decimal_of_str :: "string \<Rightarrow> error + decimal" where
  "Decimal_of_str s =
     (let (sg, r) = split_sign (filter (\<lambda>c. c \<noteq> CHR ''_'') (strip s));
          lr = map lower r
      in if lr = ''inf'' \<or> lr = ''infinity'' then Inr (Infinity sg)
         else if prefix ''nan'' lr \<and> list_all is_digit (drop 3 lr)
           then Inr (NaN sg False (nat_of_digits (drop 3 lr)))
         else if prefix ''snan'' lr \<and> list_all is_digit (drop 4 lr)
           then Inr (NaN sg True (nat_of_digits (drop 4 lr)))
         else parse_number sg r)"

text \<open>\<open>Decimal(x)\<close>: an integer converts exactly, \<open>None\<close> is a \<open>TypeError\<close>.\<close>

fun Decimal :: "jval \<Rightarrow> error + decimal" where
  "Decimal (JStr s) = Decimal_of_str s"
| "Decimal (JInt n) = Inr (Finite (n < 0) (nat \<bar>n\<bar>) 0)"
| "Decimal JNull = Inl TypeError"

section \<open>Canonical events\<close>

text \<open>
  The dictionaries both normalizers build. \<open>exchange\<close> and \<open>type\<close> are string literals of
  the program; \<open>symbol\<close> and \<open>asset\<close> hold whatever the venue's row held.
\<close>

record event =
  exchange :: string
  symbol :: jval
  asset :: jval
  amount :: decimal
  time :: int
  type :: string

section \<open>Venue A rows: \<open>normalize_binance\<close>\<close>

definition binance_event :: "row \<Rightarrow> error + event option" where
  "binance_event r =
     (if get r ''incomeType'' \<noteq> JStr ''FUNDING_FEE'' then Inr None
      else
        let sym = get r ''symbol'';
            asset = get_default r ''asset'' (JStr ''USDT'')
        in case Decimal_of_str (py_str (get_default r ''income'' (JStr ''0''))) of
             Inl e \<Rightarrow> Inl e
           | Inr amt \<Rightarrow>
               (case py_int (get_default r ''time'' (JInt 0)) of
                  Inl e \<Rightarrow> Inl e
                | Inr t \<Rightarrow>
                    Inr (Some \<lparr>exchange = ''Binance'', symbol = sym, asset = asset,
                               amount = amt, time = t, type = ''funding''\<rparr>)))"

fun normalize_binance :: "row list \<Rightarrow> error + event list" where
  "normalize_binance [] = Inr []"
| "normalize_binance (r # rows) =
     (case binance_event r of
        Inl e \<Rightarrow> Inl e
      | Inr None \<Rightarrow> normalize_binance rows
      | Inr (Some ev) \<Rightarrow>
          (case normalize_binance rows of Inl e \<Rightarrow> Inl e | Inr norm \<Rightarrow> Inr (ev # norm)))"

section \<open>Venue B positions: \<open>normalize_bybit\<close>\<close>

datatype log_line =
    WarnSkip string error
  | WarnRetCode string jval jval
  | InfoBybitRows nat
  | BinanceRawRows nat
  | BybitNotConfigured error
  | TotalRows nat
  | Wrote

text \<open>
  The body of the loop over positions: \<open>Inr None\<close> is \<open>continue\<close>. A parse failure of
  \<open>curRealisedPnl\<close> is caught and replaced by \<open>Decimal("0")\<close>; \<open>symbol.replace\<close> on a
  value that is not a string and \<open>int(...)\<close> on an unreadable time are not caught.
\<close>

definition bybit_event :: "row \<Rightarrow> error + event option" where
  "bybit_event pos =
     (let size = get pos ''size'' in
      if \<not> truthy size \<or> size \<in> set [JStr ''0'', JStr ''0.0''] then Inr None
      else
        let symbol = get pos ''symbol'' in
        if \<not> truthy symbol then Inr None
        else (case symbol of
                JStr s \<Rightarrow>
                  (let asset = replace ''USDC'' '''' (replace ''USDT'' '''' s);
                       cur_realised_str = py_or (get pos ''curRealisedPnl'') (JStr ''0'');
                       amt = (case Decimal cur_realised_str of
                                Inl e \<Rightarrow> Finite False 0 0
                              | Inr d \<Rightarrow> d)
                   in case py_int (py_or (get_default pos ''updatedTime'' (JInt 0)) (JInt 0)) of
                        Inl e \<Rightarrow> Inl e
                      | Inr t \<Rightarrow>
                          Inr (Some \<lparr>exchange = ''Bybit'', symbol = symbol, asset = JStr asset,
                                     amount = amt, time = t, type = ''realized_pnl''\<rparr>))
              | _ \<Rightarrow> Inl AttributeError))"

fun bybit_events :: "row list \<Rightarrow> error + event list" where
  "bybit_events [] = Inr []"
| "bybit_events (pos # positions) =
     (case bybit_event pos of
        Inl e \<Rightarrow> Inl e
      | Inr None \<Rightarrow> bybit_events positions
      | Inr (Some ev) \<Rightarrow>
          (case bybit_events positions of Inl e \<Rightarrow> Inl e | Inr norm \<Rightarrow> Inr (ev # norm)))"

text \<open>\<open>normalize_bybit\<close> returns the events and prints their number.\<close>

definition normalize_bybit :: "row list \<Rightarrow> error + (event list \<times> log_line list)" where
  "normalize_bybit positions =
     (case bybit_events positions of
        Inl e \<Rightarrow> Inl e
      | Inr norm \<Rightarrow> Inr (norm, [InfoBybitRows (length norm)]))"

text \<open>
  The positions that pass both guards of the loop: a size that is neither empty, zero nor
  one of the two literals, and a symbol that is not empty.
\<close>

definition kept_position :: "row \<Rightarrow> bool" where
  "kept_position pos \<longleftrightarrow>
     truthy (get pos ''size'') \<and> get pos ''size'' \<noteq> JStr ''0'' \<and> get pos ''size'' \<noteq> JStr ''0.0''
     \<and> truthy (get pos ''symbol'')"

text \<open>
  Stripping a settlement-currency suffix, as the specification words it: the text is removed
  where the symbol ends with it, and only there.
\<close>

definition strip_settle_suffix :: "string \<Rightarrow> string" where
  "strip_settle_suffix s =
     (if suffix ''USDT'' s \<or> suffix ''USDC'' s then take (length s - 4) s else s)"

section \<open>Credentials and the venues' HTTP interfaces\<close>

text \<open>
  The four constants imported from \<open>config\<close>. A constant that is \<open>None\<close> or the empty
  string is missing (\<open>not api_key\<close>).
\<close>

record config =
  BINANCE_API_KEY :: "string option"
  BINANCE_API_SECRET :: "string option"
  BYBIT_API_KEY :: "string option"
  BYBIT_API_SECRET :: "string option"

definition missing :: "string option \<Rightarrow> bool" where
  "missing k \<longleftrightarrow> k = None \<or> k = Some []"

text \<open>
  What lies behind \<open>requests.get\<close> is a venue: from its state, an endpoint and the query
  parameters of the caller it gives an answer, or fails (\<open>raise_for_status\<close>, a lost
  connection), and moves to a new state. The receive window, the timestamp and the
  signature that the request functions add are computed from the parameters, the clock and
  the secret, and are part of the venue's side here.
\<close>

type_synonym 's binance_api = "'s \<Rightarrow> string \<Rightarrow> row \<Rightarrow> (error + row list) \<times> 's"

definition binance_signed_request ::
  "config \<Rightarrow> 's binance_api \<Rightarrow> string \<Rightarrow> row \<Rightarrow> 's \<Rightarrow> (error + row list) \<times> 's" where
  "binance_signed_request cfg api endpoint params s =
     (if missing (BINANCE_API_KEY cfg) \<or> missing (BINANCE_API_SECRET cfg)
      then (Inl (RuntimeError ''Set BINANCE_API_KEY and BINANCE_API_SECRET env vars''), s)
      else api s endpoint params)"

text \<open>
  The answer of venue B: \<open>retCode\<close>, \<open>retMsg\<close>, and \<open>result\<close>, an object whose entry
  \<open>list\<close> holds the positions.
\<close>

record bybit_response =
  retCode :: jval
  retMsg :: jval
  result :: "(string \<rightharpoonup> row list) option"

type_synonym 's bybit_api = "'s \<Rightarrow> string \<Rightarrow> row \<Rightarrow> (error + bybit_response) \<times> 's"

definition bybit_signed_request ::
  "config \<Rightarrow> 's bybit_api \<Rightarrow> string \<Rightarrow> row \<Rightarrow> 's \<Rightarrow> (error + bybit_response) \<times> 's" where
  "bybit_signed_request cfg api path params s =
     (if missing (BYBIT_API_KEY cfg) \<or> missing (BYBIT_API_SECRET cfg)
      then (Inl (RuntimeError ''Set BYBIT_API_KEY and BYBIT_API_SECRET in config.py''), s)
      else api s path params)"

section \<open>Venue A: \<open>get_binance_funding\<close>\<close>

text \<open>
  The \<open>while True\<close> loop. It has no bound of its own, so the model is a partial function:
  \<open>None\<close> stands for a run that never leaves the loop, \<open>Some (Inl e, s)\<close> for an exception
  and \<open>Some (Inr rows, s)\<close> for \<open>return all_rows\<close>.
\<close>

partial_function (option) funding_loop ::
  "config \<Rightarrow> 's binance_api \<Rightarrow> row \<Rightarrow> row list \<Rightarrow> 's \<Rightarrow> ((error + row list) \<times> 's) option" where
  "funding_loop cfg api params all_rows s =
     (case binance_signed_request cfg api ''/fapi/v1/income'' params s of
        (Inl e, s') \<Rightarrow> Some (Inl e, s')
      | (Inr data, s') \<Rightarrow>
          if data = [] then Some (Inr all_rows, s')
          else (case subscript params ''limit'' of
                  Inl e \<Rightarrow> Some (Inl e, s')
                | Inr (JInt lim) \<Rightarrow>
                    if int (length data) < lim then Some (Inr (all_rows @ data), s')
                    else (case subscript (last data) ''time'' of
                            Inl e \<Rightarrow> Some (Inl e, s')
                          | Inr v \<Rightarrow>
                              (case py_int v of
                                 Inl e \<Rightarrow> Some (Inl e, s')
                               | Inr last_time \<Rightarrow>
                                   funding_loop cfg api
                                     (params(''startTime'' \<mapsto> JInt (last_time + 1)))
                                     (all_rows @ data) s'))
                | Inr _ \<Rightarrow> Some (Inl TypeError, s')))"

definition get_binance_funding ::
  "config \<Rightarrow> 's binance_api \<Rightarrow> int option \<Rightarrow> 's \<Rightarrow> ((error + row list) \<times> 's) option" where
  "get_binance_funding cfg api start_ms s =
     (let params = [''incomeType'' \<mapsto> JStr ''FUNDING_FEE'', ''limit'' \<mapsto> JInt 1000];
          params = (case start_ms of None \<Rightarrow> params | Some t \<Rightarrow> params(''startTime'' \<mapsto> JInt t))
      in funding_loop cfg api params [] s)"

text \<open>
  The pagination protocol in the words of the specification: a run of requests that ends
  with the first page below the limit of 1000 (an empty page included); after a full page
  the next request starts at the time of the page's last record plus one.
\<close>

inductive paginates ::
  "config \<Rightarrow> 's binance_api \<Rightarrow> row \<Rightarrow> 's \<Rightarrow> row list list \<Rightarrow> 's \<Rightarrow> bool"
  for cfg :: config and api :: "'s binance_api" where
  last_page:
    "binance_signed_request cfg api ''/fapi/v1/income'' params s = (Inr data, s')
     \<Longrightarrow> length data < 1000
     \<Longrightarrow> paginates cfg api params s [data] s'"
| full_page:
    "binance_signed_request cfg api ''/fapi/v1/income'' params s = (Inr data, s')
     \<Longrightarrow> \<not> length data < 1000
     \<Longrightarrow> subscript (last data) ''time'' = Inr v
     \<Longrightarrow> py_int v = Inr t
     \<Longrightarrow> paginates cfg api (params(''startTime'' \<mapsto> JInt (t + 1))) s' pages s''
     \<Longrightarrow> paginates cfg api params s (data # pages) s''"

section \<open>Venue B: \<open>get_bybit_realized_raw\<close>\<close>

text \<open>
  The loop over the settlement currencies. Every exception of the request is caught, and an
  answer whose \<open>retCode\<close> is not \<open>0\<close> is skipped; both print a warning.
\<close>

fun bybit_partitions ::
  "config \<Rightarrow> 's bybit_api \<Rightarrow> string list \<Rightarrow> row list \<Rightarrow> log_line list \<Rightarrow> 's
     \<Rightarrow> (row list \<times> log_line list) \<times> 's" where
  "bybit_partitions cfg api [] all_positions out s = ((all_positions, out), s)"
| "bybit_partitions cfg api (settle # rest) all_positions out s =
     (let params = [''category'' \<mapsto> JStr ''linear'', ''settleCoin'' \<mapsto> JStr settle] in
      case bybit_signed_request cfg api ''/v5/position/list'' params s of
        (Inl e, s') \<Rightarrow> bybit_partitions cfg api rest all_positions (out @ [WarnSkip settle e]) s'
      | (Inr data, s') \<Rightarrow>
          if retCode data \<noteq> JInt 0
          then bybit_partitions cfg api rest all_positions
                 (out @ [WarnRetCode settle (retCode data) (retMsg data)]) s'
          else
            let result = (case result data of None \<Rightarrow> Map.empty | Some r \<Rightarrow> r);
                pos_list = (case result ''list'' of None \<Rightarrow> [] | Some l \<Rightarrow> l)
            in bybit_partitions cfg api rest (all_positions @ pos_list) out s')"

definition get_bybit_realized_raw ::
  "config \<Rightarrow> 's bybit_api \<Rightarrow> 's \<Rightarrow> (row list \<times> log_line list) \<times> 's" where
  "get_bybit_realized_raw cfg api s = bybit_partitions cfg api [''USDT'', ''USDC''] [] [] s"

text \<open>
  What one partition contributes, in the words of the specification: the positions of a
  request that succeeded with status \<open>0\<close>, nothing and a warning otherwise.
\<close>

definition partition_succeeded :: "error + bybit_response \<Rightarrow> bool" where
  "partition_succeeded outcome =
     (case outcome of Inl e \<Rightarrow> False | Inr data \<Rightarrow> retCode data = JInt 0)"

definition partition_records :: "error + bybit_response \<Rightarrow> row list" where
  "partition_records outcome =
     (case outcome of
        Inl e \<Rightarrow> []
      | Inr data \<Rightarrow>
          (case result data of
             None \<Rightarrow> []
           | Some r \<Rightarrow> (case r ''list'' of None \<Rightarrow> [] | Some l \<Rightarrow> l)))"

definition partition_warning :: "string \<Rightarrow> error + bybit_response \<Rightarrow> log_line list" where
  "partition_warning settle outcome =
     (case outcome of
        Inl e \<Rightarrow> [WarnSkip settle e]
      | Inr data \<Rightarrow>
          if retCode data = JInt 0 then [] else [WarnRetCode settle (retCode data) (retMsg data)])"

section \<open>Decimal arithmetic in the default context\<close>

text \<open>
  The program never changes the decimal context, so sums are taken in the default one:
  28 significant digits, rounding half to even, exponents between \<open>Emin\<close> and \<open>Emax\<close>,
  and the signals \<open>InvalidOperation\<close> and \<open>Overflow\<close> raised as exceptions.
\<close>

definition prec :: nat where "prec = 28"
definition Emax :: int where "Emax = 999999"
definition Emin :: int where "Emin = - 999999"
definition Etiny :: int where "Etiny = Emin - int prec + 1"
definition Etop :: int where "Etop = Emax - int prec + 1"

text \<open>The number of decimal digits of a coefficient, \<open>len(str(n))\<close>.\<close>

fun ndigits :: "nat \<Rightarrow> nat" where
  "ndigits n = (if n < 10 then 1 else Suc (ndigits (n div 10)))"

declare ndigits.simps [simp del]

text \<open>Dropping the last \<open>k\<close> digits of a coefficient, a tie going to the even neighbour.\<close>

definition round_half_even :: "nat \<Rightarrow> nat \<Rightarrow> nat" where
  "round_half_even c k =
     (let q = c div 10 ^ k; r = c mod 10 ^ k
      in if 2 * r > 10 ^ k \<or> (2 * r = 10 ^ k \<and> odd q) then q + 1 else q)"

text \<open>
  Fitting a finite result into the context: a zero keeps its sign and gets its exponent
  clamped; a coefficient of more than 28 digits, or one below the smallest exponent, is
  rounded; a result above \<open>Emax\<close> raises \<open>Overflow\<close>.
\<close>

definition dec_fix :: "bool \<Rightarrow> nat \<Rightarrow> int \<Rightarrow> error + decimal" where
  "dec_fix sg c e =
     (if c = 0 then Inr (Finite sg 0 (min (max e Etiny) Emax))
      else
        let exp_min = int (ndigits c) + e - int prec in
        if exp_min > Etop then Inl Overflow
        else
          let exp_min = max exp_min Etiny in
          if e < exp_min
          then (let coeff = round_half_even c (nat (exp_min - e)) in
                if ndigits coeff > prec
                then (if exp_min + 1 > Etop then Inl Overflow
                      else Inr (Finite sg (coeff div 10) (exp_min + 1)))
                else Inr (Finite sg coeff exp_min))
          else Inr (Finite sg c e))"

text \<open>The coefficient of a finite decimal, signed, in units of \<open>10 ^ m\<close> for an \<open>m\<close> not above its exponent.\<close>

definition units :: "int \<Rightarrow> bool \<Rightarrow> nat \<Rightarrow> int \<Rightarrow> int" where
  "units m sg c e = (if sg then - 1 else 1) * int c * 10 ^ nat (e - m)"

text \<open>
  \<open>a + b\<close>. A signalling NaN raises; a quiet NaN is returned with its payload cut to the
  precision; infinities of opposite signs raise; two finite numbers are added exactly at
  the smaller exponent and the sum is fitted into the context. A zero sum is negative only
  when both operands are negative zeros.
\<close>

fun dec_add :: "decimal \<Rightarrow> decimal \<Rightarrow> error + decimal" where
  "dec_add (NaN sg1 sig1 p1) b =
     (if sig1 then Inl InvalidOperation
      else (case b of
              NaN sg2 sig2 p2 \<Rightarrow>
                if sig2 then Inl InvalidOperation else Inr (NaN sg1 False (p1 mod 10 ^ prec))
            | _ \<Rightarrow> Inr (NaN sg1 False (p1 mod 10 ^ prec))))"
| "dec_add a (NaN sg2 sig2 p2) =
     (if sig2 then Inl InvalidOperation else Inr (NaN sg2 False (p2 mod 10 ^ prec)))"
| "dec_add (Infinity sg1) (Infinity sg2) =
     (if sg1 \<noteq> sg2 then Inl InvalidOperation else Inr (Infinity sg1))"
| "dec_add (Infinity sg1) (Finite sg2 c2 e2) = Inr (Infinity sg1)"
| "dec_add (Finite sg1 c1 e1) (Infinity sg2) = Inr (Infinity sg2)"
| "dec_add (Finite sg1 c1 e1) (Finite sg2 c2 e2) =
     (let e = min e1 e2;
          v = units e sg1 c1 e1 + units e sg2 c2 e2
      in if v = 0 then dec_fix (c1 = 0 \<and> c2 = 0 \<and> sg1 \<and> sg2) 0 e
         else dec_fix (v < 0) (nat \<bar>v\<bar>) e)"

text \<open>
  \<open>f"{d:.10f}"\<close>: a finite decimal is brought to the exponent \<open>-10\<close>, rounding half to
  even where digits are dropped, and written with its sign, its integer digits, a point and
  ten fraction digits; a special value is written by name.
\<close>

definition rescale10 :: "nat \<Rightarrow> int \<Rightarrow> nat" where
  "rescale10 c e =
     (if c = 0 then 0
      else if e \<ge> - 10 then c * 10 ^ nat (e + 10)
      else round_half_even c (nat (- 10 - e)))"

definition format10 :: "decimal \<Rightarrow> string" where
  "format10 d =
     (case d of
        Finite sg c e \<Rightarrow>
          (let q = rescale10 c e;
               fracpart = str_of_nat (q mod 10 ^ 10)
           in (if sg then ''-'' else '''') @ str_of_nat (q div 10 ^ 10) @ ''.''
              @ replicate (10 - length fracpart) (CHR ''0'') @ fracpart)
      | Infinity sg \<Rightarrow> (if sg then ''-'' else '''') @ ''Infinity''
      | NaN sg sig p \<Rightarrow>
          (if sg then ''-'' else '''') @ (if sig then ''sNaN'' else ''NaN'')
          @ (if p = 0 then '''' else str_of_nat p))"

section \<open>The aggregator and the two tables: \<open>write_csv\<close>\<close>

type_synonym key = "string \<times> jval \<times> jval \<times> string"

definition key_of :: "event \<Rightarrow> key" where
  "key_of r = (exchange r, symbol r, asset r, type r)"

text \<open>The dictionary stored under a key; its entries \<open>total\<close>, \<open>first\<close>, \<open>last\<close>, \<open>count\<close>.\<close>

record summary =
  total_d :: decimal
  first_d :: int
  last_d :: int
  count_d :: nat

text \<open>
  \<open>by_key\<close> is a dictionary that keeps the order in which keys were first stored: an
  association list, updated in place or extended at the end. One round of the loop:
\<close>

fun store :: "key \<Rightarrow> summary \<Rightarrow> (key \<times> summary) list \<Rightarrow> (key \<times> summary) list" where
  "store k v [] = [(k, v)]"
| "store k v (p # ps) = (if fst p = k then (k, v) # ps else p # store k v ps)"

definition by_key_row :: "(key \<times> summary) list \<Rightarrow> event \<Rightarrow> error + (key \<times> summary) list" where
  "by_key_row by_key r =
     (let key = key_of r;
          d = (case map_of by_key key of
                 None \<Rightarrow> \<lparr>total_d = Finite False 0 0, first_d = time r, last_d = time r,
                           count_d = 0\<rparr>
               | Some d \<Rightarrow> d)
      in case dec_add (total_d d) (amount r) of
           Inl e \<Rightarrow> Inl e
         | Inr t \<Rightarrow>
             Inr (store key \<lparr>total_d = t, first_d = min (first_d d) (time r),
                              last_d = max (last_d d) (time r), count_d = count_d d + 1\<rparr>
                    by_key))"

fun aggregate :: "(key \<times> summary) list \<Rightarrow> event list \<Rightarrow> error + (key \<times> summary) list" where
  "aggregate by_key [] = Inr by_key"
| "aggregate by_key (r # rows) =
     (case by_key_row by_key r of
        Inl e \<Rightarrow> Inl e
      | Inr by_key' \<Rightarrow> aggregate by_key' rows)"

text \<open>
  \<open>sorted(by_key.items())\<close> orders the items by their keys, tuples compared component by
  component. Two strings compare by code points and two integers by value; any other two
  values that differ raise \<open>TypeError\<close> when compared. Sorting compares every two items that
  end up next to each other, so it raises as soon as two keys of the dictionary cannot be
  compared. The order below agrees with Python's wherever Python's is defined.
\<close>

fun jval_rank :: "jval \<Rightarrow> nat \<times> int \<times> string" where
  "jval_rank JNull = (0, 0, [])"
| "jval_rank (JInt n) = (1, n, [])"
| "jval_rank (JStr s) = (2, 0, s)"

instantiation jval :: linorder
begin

definition less_eq_jval :: "jval \<Rightarrow> jval \<Rightarrow> bool" where
  "less_eq_jval a b \<longleftrightarrow> jval_rank a \<le> jval_rank b"

definition less_jval :: "jval \<Rightarrow> jval \<Rightarrow> bool" where
  "less_jval a b \<longleftrightarrow> jval_rank a < jval_rank b"

instance
proof
  fix x y z :: jval
  show "(x < y) = (x \<le> y \<and> \<not> y \<le> x)"
    by (auto simp: less_eq_jval_def less_jval_def)
  show "x \<le> x"
    by (simp add: less_eq_jval_def)
  show "x \<le> y \<Longrightarrow> y \<le> z \<Longrightarrow> x \<le> z"
    by (simp add: less_eq_jval_def)
  show "x \<le> y \<Longrightarrow> y \<le> x \<Longrightarrow> x = y"
    by (cases x; cases y) (auto simp: less_eq_jval_def)
  show "x \<le> y \<or> y \<le> x"
    by (auto simp: less_eq_jval_def)
qed

end

fun comparable :: "jval \<Rightarrow> jval \<Rightarrow> bool" where
  "comparable (JInt a) (JInt b) = True"
| "comparable (JStr a) (JStr b) = True"
| "comparable a b = False"

definition key_comparable :: "key \<Rightarrow> key \<Rightarrow> bool" where
  "key_comparable k1 k2 =
     (case (k1, k2) of
        ((ex1, sym1, asset1, typ1), (ex2, sym2, asset2, typ2)) \<Rightarrow>
          if ex1 \<noteq> ex2 then True
          else if sym1 \<noteq> sym2 then comparable sym1 sym2
          else if asset1 \<noteq> asset2 then comparable asset1 asset2
          else True)"

definition sorted_items :: "(key \<times> summary) list \<Rightarrow> error + (key \<times> summary) list" where
  "sorted_items items =
     (if list_all (\<lambda>k1. list_all (key_comparable k1) (map fst items)) (map fst items)
      then Inr (sort_key fst items)
      else Inl TypeError)"

text \<open>
  The two tables, each a list of the rows handed to \<open>csv.writer\<close>: a cell is a string, an
  integer or \<open>None\<close>. (Turning the rows into text is the work of the \<open>csv\<close> module, and
  creating the directory and the files that of the operating system.)
\<close>

record report =
  summary_csv :: "jval list list"
  details_csv :: "jval list list"

definition summary_row :: "key \<times> summary \<Rightarrow> jval list" where
  "summary_row item =
     (case item of
        ((ex, sy, ast, typ), d) \<Rightarrow>
          [JStr ex, sy, ast, JStr typ, JStr (format10 (total_d d)),
           JInt (int (count_d d)), JInt (first_d d), JInt (last_d d)])"

definition details_row :: "event \<Rightarrow> jval list" where
  "details_row r =
     [JStr (exchange r), symbol r, asset r, JStr (type r), JStr (format10 (amount r)),
      JInt (time r)]"

definition write_csv :: "event list \<Rightarrow> error + (report \<times> log_line list)" where
  "write_csv rows =
     (case aggregate [] rows of
        Inl e \<Rightarrow> Inl e
      | Inr by_key \<Rightarrow>
          (case sorted_items by_key of
             Inl e \<Rightarrow> Inl e
           | Inr items \<Rightarrow>
               Inr (\<lparr>summary_csv =
                       map JStr [''exchange'', ''symbol'', ''asset'', ''type'', ''total_amount'',
                                 ''periods'', ''first_time'', ''last_time'']
                       # map summary_row items,
                     details_csv =
                       map JStr [''exchange'', ''symbol'', ''asset'', ''type'', ''amount'', ''time'']
                       # map details_row rows\<rparr>,
                    [Wrote])))"

section \<open>Groups and exact sums\<close>

text \<open>The events of one key, in input order.\<close>

definition group_of :: "key \<Rightarrow> event list \<Rightarrow> event list" where
  "group_of k rows = filter (\<lambda>r. key_of r = k) rows"

text \<open>What \<open>total += amount\<close>, repeated over a list of amounts, makes of a total.\<close>

fun running_total :: "decimal \<Rightarrow> decimal list \<Rightarrow> error + decimal" where
  "running_total t [] = Inr t"
| "running_total t (a # as) =
     (case dec_add t a of Inl e \<Rightarrow> Inl e | Inr t' \<Rightarrow> running_total t' as)"

fun is_finite :: "decimal \<Rightarrow> bool" where
  "is_finite (Finite sg c e) = True"
| "is_finite d = False"

fun exponent :: "decimal \<Rightarrow> int" where
  "exponent (Finite sg c e) = e"
| "exponent d = 0"

text \<open>The exact value of a finite decimal as a whole number of units \<open>10 ^ m\<close>.\<close>

fun signed_units :: "int \<Rightarrow> decimal \<Rightarrow> int" where
  "signed_units m (Finite sg c e) = units m sg c e"
| "signed_units m d = 0"

text \<open>The smallest exponent among a starting exponent and those of a list of amounts.\<close>

fun min_exp :: "int \<Rightarrow> decimal list \<Rightarrow> int" where
  "min_exp e [] = e"
| "min_exp e (a # as) = min_exp (min e (exponent a)) as"

text \<open>
  The exact sum of a list of finite amounts, as the decimal whose exponent is the smallest
  one at hand (that of \<open>Decimal("0")\<close> included) and whose coefficient is the sum of the
  amounts in units of that exponent.
\<close>

definition exact_sum :: "decimal list \<Rightarrow> decimal" where
  "exact_sum as =
     (let m = min_exp 0 as; v = (\<Sum>a\<leftarrow>as. signed_units m a)
      in Finite (v < 0) (nat \<bar>v\<bar>) m)"

text \<open>
  Amounts that the context adds without rounding: finite, with exponents not below some
  \<open>m\<close>, and with absolute values that add up, within each key, to less than \<open>10 ^ 28\<close>
  units of \<open>10 ^ m\<close>.
\<close>

definition exact_ok :: "int \<Rightarrow> event list \<Rightarrow> bool" where
  "exact_ok m rows \<longleftrightarrow>
     Etiny \<le> m \<and> m \<le> 0
     \<and> (\<forall>r \<in> set rows. is_finite (amount r) \<and> m \<le> exponent (amount r))
     \<and> (\<forall>r \<in> set rows.
           (\<Sum>x\<leftarrow>group_of (key_of r) rows. \<bar>signed_units m (amount x)\<bar>) < 10 ^ 28)"

text \<open>
  What the dictionary holds for a key whose events, in input order, are \<open>g\<close>: the total
  that the repeated addition gives, the number of events, and the least and greatest time.
\<close>

definition summarizes :: "event list \<Rightarrow> summary \<Rightarrow> bool" where
  "summarizes g d \<longleftrightarrow>
     g \<noteq> []
     \<and> running_total (Finite False 0 0) (map amount g) = Inr (total_d d)
     \<and> count_d d = length g
     \<and> first_d d = Min (time ` set g)
     \<and> last_d d = Max (time ` set g)"

text \<open>Events whose symbol and asset are strings, as both normalizers build them from well-formed rows.\<close>

fun is_str :: "jval \<Rightarrow> bool" where
  "is_str (JStr s) = True"
| "is_str v = False"

definition canonical :: "event \<Rightarrow> bool" where
  "canonical r \<longleftrightarrow> is_str (symbol r) \<and> is_str (asset r)"

section \<open>\<open>main\<close>\<close>

definition main ::
  "config \<Rightarrow> 's binance_api \<Rightarrow> 's bybit_api \<Rightarrow> 's
     \<Rightarrow> ((error + report) \<times> log_line list \<times> 's) option" where
  "main cfg binance bybit s =
     (let start_ms = 1762732800000 in
      case get_binance_funding cfg binance (Some start_ms) s of
        None \<Rightarrow> None
      | Some (Inl e, s1) \<Rightarrow> Some (Inl e, [], s1)
      | Some (Inr raw_binance, s1) \<Rightarrow>
          (let out1 = [BinanceRawRows (length raw_binance)] in
           case normalize_binance raw_binance of
             Inl e \<Rightarrow> Some (Inl e, out1, s1)
           | Inr norm_binance \<Rightarrow>
               (let ((raw_bybit, out2), s2) = get_bybit_realized_raw cfg bybit s1 in
                case (case normalize_bybit raw_bybit of
                        Inl (RuntimeError m) \<Rightarrow> Inr ([], [BybitNotConfigured (RuntimeError m)])
                      | Inl e \<Rightarrow> Inl e
                      | Inr (norm_bybit, out3) \<Rightarrow> Inr (norm_bybit, out3)) of
                  Inl e \<Rightarrow> Some (Inl e, out1 @ out2, s2)
                | Inr (norm_bybit, out3) \<Rightarrow>
                    (let rows = norm_binance @ norm_bybit;
                         out4 = out1 @ out2 @ out3 @ [TotalRows (length rows)]
                     in case write_csv rows of
                          Inl e \<Rightarrow> Some (Inl e, out4, s2)
                        | Inr (rep, out5) \<Rightarrow> Some (Inr rep, out4 @ out5, s2)))))"

section \<open>Example venues and credentials\<close>


text \<open>
  A venue with one funding record per millisecond from 0 up to, but not including, a last
  time. It answers with the first 1000 records from \<open>startTime\<close> on, and its state is the
  list of the \<open>startTime\<close> values it was asked for.
\<close>

definition funding_row :: "nat \<Rightarrow> row" where
  "funding_row n =
     [''incomeType'' \<mapsto> JStr ''FUNDING_FEE'', ''symbol'' \<mapsto> JStr ''BTCUSDT'',
      ''income'' \<mapsto> JStr ''0.00000001'', ''time'' \<mapsto> JInt (int n)]"


text \<open>An event with a string symbol, settled in USDT, of type \<open>funding\<close>.\<close>

definition ledger_event :: "string \<Rightarrow> string \<Rightarrow> decimal \<Rightarrow> int \<Rightarrow> event" where
  "ledger_event ex s a t =
     \<lparr>exchange = ex, symbol = JStr s, asset = JStr ''USDT'', amount = a, time = t,
      type = ''funding''\<rparr>"

text \<open>A venue A that answers every request with the same rows.\<close>

definition static_api :: "row list \<Rightarrow> unit binance_api" where
  "static_api rows s endpoint params = (Inr rows, s)"

text \<open>Credentials for one venue only.\<close>

definition binance_only :: config where
  "binance_only =
     \<lparr>BINANCE_API_KEY = Some ''key-a'', BINANCE_API_SECRET = Some ''secret-a'',
      BYBIT_API_KEY = None, BYBIT_API_SECRET = None\<rparr>"

definition bybit_only :: config where
  "bybit_only =
     \<lparr>BINANCE_API_KEY = None, BINANCE_API_SECRET = Some '''',
      BYBIT_API_KEY = Some ''key-b'', BYBIT_API_SECRET = Some ''secret-b''\<rparr>"




definition satoshi_events :: "event list" where
  "satoshi_events =
     map (\<lambda>t. \<lparr>exchange = ''Binance'', symbol = JStr ''BTCUSDT'', asset = JStr ''USDT'',
               amount = Finite False 1 (- 8), time = t, type = ''funding''\<rparr>) [0, 1, 2]"

definition summary_header :: "jval list" where
  "summary_header =
     map JStr [''exchange'', ''symbol'', ''asset'', ''type'', ''total_amount'', ''periods'',
               ''first_time'', ''last_time'']"

definition details_header :: "jval list" where
  "details_header = map JStr [''exchange'', ''symbol'', ''asset'', ''type'', ''amount'', ''time'']"


text \<open>A venue B whose USDT partition is down and whose USDC partition holds three positions.\<close>

definition usdt_down :: "unit bybit_api" where
  "usdt_down s path params =
     (if params ''settleCoin'' = Some (JStr ''USDT'') then (Inl HTTPError, s)
      else (Inr \<lparr>retCode = JInt 0, retMsg = JStr ''OK'',
                 result = Some [''list'' \<mapsto>
                   [[''symbol'' \<mapsto> JStr ''BTCPERP''], [''symbol'' \<mapsto> JStr ''ETHPERP''],
                    [''symbol'' \<mapsto> JStr ''SOLPERP'']]]\<rparr>, s))"

section \<open>Properties of the normalizers\<close>

lemma replace_absent: "\<not> sublist old s \<Longrightarrow> replace old new s = s"
proof (induction s)
  case Nil
  then show ?case by simp
next
  case (Cons c cs)
  have "\<not> prefix old (c # cs)"
    using Cons.prems by (auto dest: prefix_imp_sublist)
  moreover have "\<not> sublist old cs"
    using Cons.prems by (auto simp: sublist_Cons_right)
  ultimately show ?case using Cons.IH by simp
qed

lemma prefix4: "prefix [a, b, c, d] xs \<longleftrightarrow> (\<exists>ys. xs = a # b # c # d # ys)"
  by (auto simp: prefix_def)

text \<open>
  Neither currency code overlaps itself or the other one: an occurrence that starts inside
  the base of a symbol lies inside the base.
\<close>

lemma settle_code_border:
  assumes "prefix p (b @ sfx)"
    and "p \<in> {''USDT'', ''USDC''}" and "sfx \<in> {''USDT'', ''USDC'', ''''}" and "b \<noteq> []"
  shows "prefix p b"
proof -
  obtain x ys where e: "b @ sfx = CHR ''U'' # CHR ''S'' # CHR ''D'' # x # ys"
    and p: "p = [CHR ''U'', CHR ''S'', CHR ''D'', x]"
    using assms(1,2) by (auto simp: prefix4)
  show ?thesis
  proof (cases b)
    case Nil
    with assms show ?thesis by simp
  next
    case c1: (Cons b1 r1)
    show ?thesis
    proof (cases r1)
      case Nil
      with c1 e p assms(2,3) show ?thesis by auto
    next
      case c2: (Cons b2 r2)
      show ?thesis
      proof (cases r2)
        case Nil
        with c2 c1 e p assms(2,3) show ?thesis by auto
      next
        case c3: (Cons b3 r3)
        show ?thesis
        proof (cases r3)
          case Nil
          with c3 c2 c1 e p assms(2,3) show ?thesis by auto
        next
          case (Cons b4 r4)
          with c3 c2 c1 e p show ?thesis by (auto simp: prefix4)
        qed
      qed
    qed
  qed
qed

lemma replace_base:
  assumes "\<not> sublist p b" and "p \<in> {''USDT'', ''USDC''}" and "sfx \<in> {''USDT'', ''USDC'', ''''}"
  shows "replace p new (b @ sfx) = b @ replace p new sfx"
  using assms(1)
proof (induction b)
  case Nil
  then show ?case by simp
next
  case (Cons c cs)
  have "\<not> prefix p (c # cs)"
    using Cons.prems by (auto dest: prefix_imp_sublist)
  then have "\<not> prefix p ((c # cs) @ sfx)"
    using settle_code_border [OF _ assms(2,3), of "c # cs"] by blast
  moreover have "\<not> sublist p cs"
    using Cons.prems by (auto simp: sublist_Cons_right)
  ultimately show ?case using Cons.IH by simp
qed

lemma asset_of_base:
  assumes "\<not> sublist ''USDT'' b" and "\<not> sublist ''USDC'' b"
    and "sfx \<in> {''USDT'', ''USDC'', ''''}"
  shows "replace ''USDC'' '''' (replace ''USDT'' '''' (b @ sfx)) = b"
proof -
  have 1: "replace ''USDT'' '''' (b @ sfx) = b @ replace ''USDT'' '''' sfx"
    using assms(1,3) by (intro replace_base) auto
  have 2: "replace ''USDT'' '''' sfx \<in> {''USDC'', ''''}"
    using assms(3) by auto
  have 3: "replace ''USDC'' '''' (b @ replace ''USDT'' '''' sfx)
             = b @ replace ''USDC'' '''' (replace ''USDT'' '''' sfx)"
    using assms(2) 2 by (intro replace_base) auto
  have 4: "replace ''USDC'' '''' (replace ''USDT'' '''' sfx) = []"
    using assms(3) by auto
  show ?thesis by (simp add: 1 3 4)
qed

lemma bybit_event_Some:
  assumes "bybit_event pos = Inr (Some ev)"
  shows "kept_position pos \<and> symbol ev = get pos ''symbol'' \<and> exchange ev = ''Bybit''
     \<and> type ev = ''realized_pnl''
     \<and> (\<exists>s. get pos ''symbol'' = JStr s \<and> s \<noteq> []
           \<and> asset ev = JStr (replace ''USDC'' '''' (replace ''USDT'' '''' s)))
     \<and> py_int (py_or (get_default pos ''updatedTime'' (JInt 0)) (JInt 0)) = Inr (time ev)"
  using assms
  by (auto simp: bybit_event_def kept_position_def Let_def
      split: if_splits jval.splits sum.splits)






lemmas py_eval =
  get_def get_default_def subscript_def py_or_def Decimal_of_str_def int_of_str_def strip_def
  is_space_def split_sign_def is_digit_def parse_number_def parse_exponent_def
  nat_of_digits_def digit_val_def lower_def Let_def




text \<open>
  C8, as stated, fails: the symbol \<open>BTCUSDT-26DEC25\<close> does not end with a settlement
  currency, so stripping a suffix leaves it as it is, yet the event's asset is
  \<open>BTC-26DEC25\<close>.
\<close>

theorem bybit_asset_counterexample:
  "normalize_bybit [[''size'' \<mapsto> JStr ''1'', ''symbol'' \<mapsto> JStr ''BTCUSDT-26DEC25'']]
     = Inr ([\<lparr>exchange = ''Bybit'', symbol = JStr ''BTCUSDT-26DEC25'',
              asset = JStr ''BTC-26DEC25'', amount = Finite False 0 0, time = 0,
              type = ''realized_pnl''\<rparr>], [InfoBybitRows 1])
   \<and> strip_settle_suffix ''BTCUSDT-26DEC25'' = ''BTCUSDT-26DEC25''"
  by (simp add: normalize_bybit_def bybit_event_def py_eval strip_settle_suffix_def
      suffix_def)

text \<open>
  C8, amended: the asset of every event of \<open>normalize_bybit\<close> is the event's own symbol
  with every occurrence of \<open>USDT\<close> deleted, wherever it stands, and then every occurrence
  of \<open>USDC\<close> deleted from what is left. For a symbol made of a base that contains neither
  code, followed by \<open>USDT\<close>, by \<open>USDC\<close> or by nothing, the asset is the base.
\<close>

theorem bybit_asset:
  assumes "normalize_bybit ps = Inr (norm, lg)" and "ev \<in> set norm"
  shows "\<exists>s. s \<noteq> [] \<and> symbol ev = JStr s
           \<and> asset ev = JStr (replace ''USDC'' '''' (replace ''USDT'' '''' s))
           \<and> (\<forall>b sfx. s = b @ sfx \<and> sfx \<in> {''USDT'', ''USDC'', ''''}
                 \<and> \<not> sublist ''USDT'' b \<and> \<not> sublist ''USDC'' b \<longrightarrow> asset ev = JStr b)"
proof -
  from assms(1) have n: "bybit_events ps = Inr norm"
    by (auto simp: normalize_bybit_def split: sum.splits)
  have "\<exists>p. bybit_event p = Inr (Some ev)"
    using n assms(2)
  proof (induction ps arbitrary: norm)
    case Nil
    then show ?case by simp
  next
    case (Cons p ps)
    then show ?case
      by (auto split: sum.splits option.splits)
  qed
  then obtain p where "bybit_event p = Inr (Some ev)" ..
  from bybit_event_Some [OF this] obtain s where
    s: "s \<noteq> []" "symbol ev = JStr s"
       "asset ev = JStr (replace ''USDC'' '''' (replace ''USDT'' '''' s))"
    by auto
  have "asset ev = JStr b"
    if "s = b @ sfx" "sfx \<in> {''USDT'', ''USDC'', ''''}"
       "\<not> sublist ''USDT'' b" "\<not> sublist ''USDC'' b" for b sfx
    using s(3) that asset_of_base [of b sfx] by simp
  with s show ?thesis by blast
qed

theorem bybit_asset_witness:
  "normalize_bybit [[''size'' \<mapsto> JStr ''0.5'', ''symbol'' \<mapsto> JStr ''BTCUSDT'']]
     = Inr ([\<lparr>exchange = ''Bybit'', symbol = JStr ''BTCUSDT'', asset = JStr ''BTC'',
              amount = Finite False 0 0, time = 0, type = ''realized_pnl''\<rparr>],
            [InfoBybitRows 1])
   \<and> (\<exists>s. s \<noteq> [] \<and> JStr ''BTCUSDT'' = JStr s
           \<and> JStr ''BTC'' = JStr (replace ''USDC'' '''' (replace ''USDT'' '''' s)))"
proof -
  let ?ps = "[[''size'' \<mapsto> JStr ''0.5'', ''symbol'' \<mapsto> JStr ''BTCUSDT'']]"
  let ?ev = "\<lparr>exchange = ''Bybit'', symbol = JStr ''BTCUSDT'', asset = JStr ''BTC'',
              amount = Finite False 0 0, time = 0, type = ''realized_pnl''\<rparr>"
  have e: "normalize_bybit ?ps = Inr ([?ev], [InfoBybitRows 1])"
    by (simp add: normalize_bybit_def bybit_event_def py_eval)
  have m: "?ev \<in> set [?ev]" by simp
  from bybit_asset [OF e m] e show ?thesis by auto
qed

text \<open>
  C5 fails for venue A: \<open>normalize_binance\<close> converts the income with no handler around the
  conversion, so a row whose income is not a decimal makes it raise \<open>InvalidOperation\<close>. For
  venue B the same text is replaced by \<open>Decimal("0")\<close>.
\<close>

theorem normalize_binance_malformed_income:
  "normalize_binance [[''incomeType'' \<mapsto> JStr ''FUNDING_FEE'', ''symbol'' \<mapsto> JStr ''BTCUSDT'',
       ''income'' \<mapsto> JStr ''abc'', ''time'' \<mapsto> JInt 1700000000000]] = Inl InvalidOperation
   \<and> normalize_bybit [[''size'' \<mapsto> JStr ''1'', ''symbol'' \<mapsto> JStr ''BTCUSDT'',
       ''curRealisedPnl'' \<mapsto> JStr ''abc'', ''updatedTime'' \<mapsto> JStr ''1700000000000'']]
     = Inr ([\<lparr>exchange = ''Bybit'', symbol = JStr ''BTCUSDT'', asset = JStr ''BTC'',
              amount = Finite False 0 0, time = 1700000000000, type = ''realized_pnl''\<rparr>],
            [InfoBybitRows 1])"
  by (simp add: binance_event_def normalize_bybit_def bybit_event_def py_eval)

section \<open>Properties of the fetchers\<close>

lemma bybit_partitions_step:
  assumes "bybit_signed_request cfg api ''/v5/position/list''
             [''category'' \<mapsto> JStr ''linear'', ''settleCoin'' \<mapsto> JStr settle] s = (outcome, s')"
  shows "bybit_partitions cfg api (settle # rest) all_positions out s
         = bybit_partitions cfg api rest
             (all_positions @ (if partition_succeeded outcome then partition_records outcome else []))
             (out @ partition_warning settle outcome) s'"
  using assms
  by (cases outcome)
     (simp_all add: partition_succeeded_def partition_records_def partition_warning_def Let_def
        split: option.splits)

text \<open>
  C4: whatever the two partitions answer, \<open>get_bybit_realized_raw\<close> returns; its positions
  are the records of the partitions that answered with status \<open>0\<close>, in the order USDT,
  USDC, and each other partition leaves one warning. So when one partition fails and the
  other succeeds, the result is exactly the records of the one that succeeded.
\<close>

theorem get_bybit_realized_raw_isolates:
  assumes "bybit_signed_request cfg api ''/v5/position/list''
             [''category'' \<mapsto> JStr ''linear'', ''settleCoin'' \<mapsto> JStr ''USDT''] s = (usdt, s1)"
    and "bybit_signed_request cfg api ''/v5/position/list''
             [''category'' \<mapsto> JStr ''linear'', ''settleCoin'' \<mapsto> JStr ''USDC''] s1 = (usdc, s2)"
  shows "get_bybit_realized_raw cfg api s
           = (((if partition_succeeded usdt then partition_records usdt else [])
               @ (if partition_succeeded usdc then partition_records usdc else []),
               partition_warning ''USDT'' usdt @ partition_warning ''USDC'' usdc), s2)
         \<and> (\<not> partition_succeeded usdt \<and> partition_succeeded usdc
              \<longrightarrow> fst (fst (get_bybit_realized_raw cfg api s)) = partition_records usdc)
         \<and> (partition_succeeded usdt \<and> \<not> partition_succeeded usdc
              \<longrightarrow> fst (fst (get_bybit_realized_raw cfg api s)) = partition_records usdt)"
proof -
  have "get_bybit_realized_raw cfg api s
           = (((if partition_succeeded usdt then partition_records usdt else [])
               @ (if partition_succeeded usdc then partition_records usdc else []),
               partition_warning ''USDT'' usdt @ partition_warning ''USDC'' usdc), s2)"
    unfolding get_bybit_realized_raw_def
    by (subst bybit_partitions_step [OF assms(1)], subst bybit_partitions_step [OF assms(2)])
       simp
  then show ?thesis by simp
qed

theorem get_bybit_realized_raw_isolates_witness:
  "get_bybit_realized_raw
      \<lparr>BINANCE_API_KEY = None, BINANCE_API_SECRET = None,
       BYBIT_API_KEY = Some ''k'', BYBIT_API_SECRET = Some ''s''\<rparr> usdt_down ()
    = (([[''symbol'' \<mapsto> JStr ''BTCPERP''], [''symbol'' \<mapsto> JStr ''ETHPERP''],
         [''symbol'' \<mapsto> JStr ''SOLPERP'']], [WarnSkip ''USDT'' HTTPError]), ())"
proof -
  let ?cfg = "\<lparr>BINANCE_API_KEY = None, BINANCE_API_SECRET = None,
       BYBIT_API_KEY = Some ''k'', BYBIT_API_SECRET = Some ''s''\<rparr>"
  let ?ok = "Inr \<lparr>retCode = JInt 0, retMsg = JStr ''OK'',
                 result = Some [''list'' \<mapsto>
                   [[''symbol'' \<mapsto> JStr ''BTCPERP''], [''symbol'' \<mapsto> JStr ''ETHPERP''],
                    [''symbol'' \<mapsto> JStr ''SOLPERP'']]]\<rparr> :: error + bybit_response"
  have 1: "bybit_signed_request ?cfg usdt_down ''/v5/position/list''
             [''category'' \<mapsto> JStr ''linear'', ''settleCoin'' \<mapsto> JStr ''USDT''] ()
           = (Inl HTTPError, ())"
    by (simp add: bybit_signed_request_def missing_def usdt_down_def)
  have 2: "bybit_signed_request ?cfg usdt_down ''/v5/position/list''
             [''category'' \<mapsto> JStr ''linear'', ''settleCoin'' \<mapsto> JStr ''USDC''] ()
           = (?ok, ())"
    by (simp add: bybit_signed_request_def missing_def usdt_down_def)
  show ?thesis
    using get_bybit_realized_raw_isolates [OF 1 2]
    by (simp add: partition_succeeded_def partition_records_def partition_warning_def)
qed









section \<open>Properties of the aggregator\<close>

lemma aggregate_snoc:
  "aggregate bk (rows @ [r]) =
     (case aggregate bk rows of Inl e \<Rightarrow> Inl e | Inr bk' \<Rightarrow> by_key_row bk' r)"
  by (induction rows arbitrary: bk) (auto split: sum.splits)

lemma running_total_snoc:
  "running_total t (as @ [a]) =
     (case running_total t as of Inl e \<Rightarrow> Inl e | Inr t' \<Rightarrow> dec_add t' a)"
  by (induction as arbitrary: t) (auto split: sum.splits)

lemma map_of_store: "map_of (store k v al) = (map_of al)(k \<mapsto> v)"
  by (induction al) auto

lemma keys_store:
  "map fst (store k v al) = (if k \<in> fst ` set al then map fst al else map fst al @ [k])"
  by (induction al) auto

lemma distinct_store: "distinct (map fst al) \<Longrightarrow> distinct (map fst (store k v al))"
  by (simp add: keys_store)

lemma group_snoc:
  "group_of k (rows @ [r]) = (if key_of r = k then group_of k rows @ [r] else group_of k rows)"
  by (simp add: group_of_def)

lemma group_empty_iff: "group_of k rows = [] \<longleftrightarrow> k \<notin> key_of ` set rows"
  by (auto simp: group_of_def filter_empty_conv)

lemma summarizes_first:
  assumes "dec_add (Finite False 0 0) (amount r) = Inr t"
  shows "summarizes [r] \<lparr>total_d = t, first_d = min (time r) (time r),
           last_d = max (time r) (time r), count_d = 0 + 1\<rparr>"
  using assms by (simp add: summarizes_def)

lemma summarizes_next:
  assumes "summarizes g d" and "dec_add (total_d d) (amount r) = Inr t"
  shows "summarizes (g @ [r]) \<lparr>total_d = t, first_d = min (first_d d) (time r),
           last_d = max (last_d d) (time r), count_d = count_d d + 1\<rparr>"
proof -
  from assms(1) have g: "g \<noteq> []" and fin: "finite (time ` set g)" "time ` set g \<noteq> {}"
    by (auto simp: summarizes_def)
  have "Min (time ` set (g @ [r])) = min (Min (time ` set g)) (time r)"
    using fin by (simp add: min.commute)
  moreover have "Max (time ` set (g @ [r])) = max (Max (time ` set g)) (time r)"
    using fin by (simp add: max.commute)
  ultimately show ?thesis
    using assms by (simp add: summarizes_def running_total_snoc)
qed

lemma aggregate_groups:
  assumes "aggregate [] rows = Inr bk"
  shows "distinct (map fst bk)
     \<and> (\<forall>k. case map_of bk k of
               None \<Rightarrow> group_of k rows = []
             | Some d \<Rightarrow> summarizes (group_of k rows) d)"
  using assms
proof (induction rows arbitrary: bk rule: rev_induct)
  case Nil
  then show ?case by (simp add: group_of_def)
next
  case (snoc r rows)
  from snoc.prems obtain bk' where
    a: "aggregate [] rows = Inr bk'" and b: "by_key_row bk' r = Inr bk"
    by (auto simp: aggregate_snoc split: sum.splits)
  note IH = snoc.IH [OF a]
  define d where "d = (case map_of bk' (key_of r) of
       None \<Rightarrow> \<lparr>total_d = Finite False 0 0, first_d = time r, last_d = time r, count_d = 0\<rparr>
     | Some d \<Rightarrow> d)"
  from b obtain t where
    t: "dec_add (total_d d) (amount r) = Inr t"
    and bk: "bk = store (key_of r) \<lparr>total_d = t, first_d = min (first_d d) (time r),
                 last_d = max (last_d d) (time r), count_d = count_d d + 1\<rparr> bk'"
    by (auto simp: by_key_row_def Let_def d_def split: sum.splits)
  have new: "summarizes (group_of (key_of r) rows @ [r])
      \<lparr>total_d = t, first_d = min (first_d d) (time r),
       last_d = max (last_d d) (time r), count_d = count_d d + 1\<rparr>"
  proof (cases "map_of bk' (key_of r)")
    case None
    from IH have "case map_of bk' (key_of r) of
               None \<Rightarrow> group_of (key_of r) rows = []
             | Some d \<Rightarrow> summarizes (group_of (key_of r) rows) d"
      by blast
    with None have "group_of (key_of r) rows = []" by simp
    moreover from None have "d = \<lparr>total_d = Finite False 0 0, first_d = time r,
        last_d = time r, count_d = 0\<rparr>"
      by (simp add: d_def)
    ultimately show ?thesis using t summarizes_first [of r t] by simp
  next
    case (Some d')
    from IH have "case map_of bk' (key_of r) of
               None \<Rightarrow> group_of (key_of r) rows = []
             | Some d \<Rightarrow> summarizes (group_of (key_of r) rows) d"
      by blast
    with Some have "summarizes (group_of (key_of r) rows) d'" by simp
    moreover from Some have "d = d'" by (simp add: d_def)
    ultimately show ?thesis using t summarizes_next by simp
  qed
  have "distinct (map fst bk)"
    using IH bk by (simp add: distinct_store)
  moreover have "case map_of bk k of
               None \<Rightarrow> group_of k (rows @ [r]) = []
             | Some d \<Rightarrow> summarizes (group_of k (rows @ [r])) d" for k
  proof (cases "k = key_of r")
    case True
    then show ?thesis using new by (simp add: bk map_of_store group_snoc)
  next
    case False
    then have ne: "key_of r \<noteq> k" by auto
    from IH have "case map_of bk' k of
               None \<Rightarrow> group_of k rows = []
             | Some d \<Rightarrow> summarizes (group_of k rows) d"
      by blast
    then show ?thesis using False ne
      by (simp add: bk map_of_store group_snoc split: option.splits)
  qed
  ultimately show ?case by blast
qed

lemma ndigits_le: "0 < k \<Longrightarrow> c < 10 ^ k \<Longrightarrow> ndigits c \<le> k"
proof (induction k arbitrary: c)
  case 0
  then show ?case by simp
next
  case (Suc k)
  show ?case
  proof (cases "c < 10")
    case True
    then show ?thesis by (simp add: ndigits.simps)
  next
    case False
    then have k: "0 < k" using Suc.prems by (cases k) auto
    have "c div 10 < 10 ^ k"
      using Suc.prems(2) by (simp add: less_mult_imp_div_less mult.commute)
    from Suc.IH [OF k this] False show ?thesis by (simp add: ndigits.simps)
  qed
qed

lemma dec_fix_exact:
  assumes "c < 10 ^ 28" and "Etiny \<le> e" and "e \<le> 0"
  shows "dec_fix sg c e = Inr (Finite sg c e)"
proof (cases "c = 0")
  case True
  with assms show ?thesis by (simp add: dec_fix_def Emax_def)
next
  case False
  have "ndigits c \<le> 28" using assms(1) by (intro ndigits_le) auto
  then have a: "max (int (ndigits c) + e - int prec) Etiny \<le> e"
    and b: "\<not> int (ndigits c) + e - int prec > Etop"
    using assms(2,3) by (simp_all add: prec_def Etop_def Emax_def)
  from a have "\<not> e < max (int (ndigits c) + e - int prec) Etiny"
    by (simp only: not_less)
  with False b show ?thesis
    by (simp add: dec_fix_def Let_def)
qed

lemma units_signed: "units m (v < 0) (nat \<bar>v\<bar>) e = v * 10 ^ nat (e - m)"
  by (simp add: units_def)

lemma units_scale:
  assumes "m \<le> e'" and "e' \<le> e"
  shows "units e' sg c e * 10 ^ nat (e' - m) = units m sg c e"
proof -
  have "nat (e - m) = nat (e - e') + nat (e' - m)" using assms by simp
  then show ?thesis by (simp add: units_def power_add)
qed

lemma pow_scale:
  assumes "m \<le> e'" and "e' \<le> e"
  shows "(10::int) ^ nat (e - e') * 10 ^ nat (e' - m) = 10 ^ nat (e - m)"
proof -
  have "nat (e - m) = nat (e - e') + nat (e' - m)" using assms by simp
  then show ?thesis by (simp add: power_add)
qed

lemma min_exp_le: "min_exp e as \<le> e"
proof (induction as arbitrary: e)
  case Nil
  then show ?case by simp
next
  case (Cons a as)
  from Cons [of "min e (exponent a)"] show ?case by simp
qed

lemma min_exp_lower: "m \<le> e \<Longrightarrow> \<forall>a \<in> set as. m \<le> exponent a \<Longrightarrow> m \<le> min_exp e as"
  by (induction as arbitrary: e) auto

lemma signed_units_scale:
  assumes "is_finite a" and "m \<le> e'" and "e' \<le> exponent a"
  shows "signed_units e' a * 10 ^ nat (e' - m) = signed_units m a"
  using assms by (cases a) (simp_all add: units_scale)

lemma sum_signed_units_scale:
  assumes "\<forall>a \<in> set as. is_finite a \<and> e' \<le> exponent a" and "m \<le> e'"
  shows "(\<Sum>a\<leftarrow>as. signed_units e' a) * 10 ^ nat (e' - m) = (\<Sum>a\<leftarrow>as. signed_units m a)"
  using assms(1)
  by (induction as) (simp_all add: distrib_right signed_units_scale [OF _ assms(2)])

lemma dec_add_exact:
  fixes V0 :: int
  assumes "Etiny \<le> m" and "m \<le> E0" and "E0 \<le> 0" and "m \<le> e"
    and "\<bar>V0\<bar> * 10 ^ nat (E0 - m) + \<bar>units m sg c e\<bar> < 10 ^ 28"
  defines "e' \<equiv> min E0 e"
  defines "v \<equiv> V0 * 10 ^ nat (E0 - e') + units e' sg c e"
  shows "dec_add (Finite (V0 < 0) (nat \<bar>V0\<bar>) E0) (Finite sg c e)
           = Inr (Finite (v < 0) (nat \<bar>v\<bar>) e')"
    and "\<bar>v\<bar> * 10 ^ nat (e' - m) \<le> \<bar>V0\<bar> * 10 ^ nat (E0 - m) + \<bar>units m sg c e\<bar>"
    and "v * 10 ^ nat (e' - m) = V0 * 10 ^ nat (E0 - m) + units m sg c e"
proof -
  have le: "m \<le> e'" "e' \<le> E0" "e' \<le> e" "e' \<le> 0" "Etiny \<le> e'"
    using assms(1-4) by (simp_all add: e'_def)
  show 3: "v * 10 ^ nat (e' - m) = V0 * 10 ^ nat (E0 - m) + units m sg c e"
  proof -
    have "v * 10 ^ nat (e' - m)
        = V0 * (10 ^ nat (E0 - e') * 10 ^ nat (e' - m)) + units e' sg c e * 10 ^ nat (e' - m)"
      by (simp add: v_def distrib_right mult.assoc)
    also have "\<dots> = V0 * 10 ^ nat (E0 - m) + units m sg c e"
      by (simp only: pow_scale [OF le(1,2)] units_scale [OF le(1,3)])
    finally show ?thesis .
  qed
  show 2: "\<bar>v\<bar> * 10 ^ nat (e' - m) \<le> \<bar>V0\<bar> * 10 ^ nat (E0 - m) + \<bar>units m sg c e\<bar>"
  proof -
    have "\<bar>v\<bar> * 10 ^ nat (e' - m) = \<bar>v * 10 ^ nat (e' - m)\<bar>"
      by (simp add: abs_mult)
    also have "\<dots> = \<bar>V0 * 10 ^ nat (E0 - m) + units m sg c e\<bar>"
      by (simp only: 3)
    also have "\<dots> \<le> \<bar>V0 * 10 ^ nat (E0 - m)\<bar> + \<bar>units m sg c e\<bar>"
      by (rule abs_triangle_ineq)
    also have "\<dots> = \<bar>V0\<bar> * 10 ^ nat (E0 - m) + \<bar>units m sg c e\<bar>"
      by (simp add: abs_mult)
    finally show ?thesis .
  qed
  have "\<bar>v\<bar> * 1 \<le> \<bar>v\<bar> * 10 ^ nat (e' - m)"
    by (intro mult_left_mono) simp_all
  with 2 assms(5) have "\<bar>v\<bar> < 10 ^ 28" by linarith
  then have small: "nat \<bar>v\<bar> < 10 ^ 28" by (simp add: nat_less_iff)
  have sum: "units e' (V0 < 0) (nat \<bar>V0\<bar>) E0 + units e' sg c e = v"
    by (simp add: v_def units_signed)
  have unfold: "dec_add (Finite (V0 < 0) (nat \<bar>V0\<bar>) E0) (Finite sg c e)
      = (if v = 0 then dec_fix (nat \<bar>V0\<bar> = 0 \<and> c = 0 \<and> V0 < 0 \<and> sg) 0 e'
         else dec_fix (v < 0) (nat \<bar>v\<bar>) e')"
    by (simp only: dec_add.simps Let_def e'_def [symmetric] sum)
  show "dec_add (Finite (V0 < 0) (nat \<bar>V0\<bar>) E0) (Finite sg c e)
           = Inr (Finite (v < 0) (nat \<bar>v\<bar>) e')"
  proof (cases "v = 0")
    case True
    have "dec_fix False 0 e' = Inr (Finite False 0 e')"
      using le by (intro dec_fix_exact) simp_all
    moreover have "(nat \<bar>V0\<bar> = 0 \<and> c = 0 \<and> V0 < 0 \<and> sg) = False" by auto
    ultimately have "dec_fix (nat \<bar>V0\<bar> = 0 \<and> c = 0 \<and> V0 < 0 \<and> sg) 0 e'
        = Inr (Finite False 0 e')"
      by (simp only:)
    with True show ?thesis
      by (simp only: unfold if_True) simp
  next
    case False
    have "dec_fix (v < 0) (nat \<bar>v\<bar>) e' = Inr (Finite (v < 0) (nat \<bar>v\<bar>) e')"
      using le small by (intro dec_fix_exact) simp_all
    with False show ?thesis
      by (simp only: unfold if_False)
  qed
qed

lemma running_total_exact:
  fixes V0 :: int
  assumes "\<forall>a \<in> set as. is_finite a \<and> m \<le> exponent a"
    and "Etiny \<le> m" and "m \<le> E0" and "E0 \<le> 0"
    and "\<bar>V0\<bar> * 10 ^ nat (E0 - m) + (\<Sum>a\<leftarrow>as. \<bar>signed_units m a\<bar>) < 10 ^ 28"
  shows "\<exists>V. running_total (Finite (V0 < 0) (nat \<bar>V0\<bar>) E0) as
               = Inr (Finite (V < 0) (nat \<bar>V\<bar>) (min_exp E0 as))
           \<and> V * 10 ^ nat (min_exp E0 as - m)
               = V0 * 10 ^ nat (E0 - m) + (\<Sum>a\<leftarrow>as. signed_units m a)"
  using assms
proof (induction as arbitrary: V0 E0)
  case Nil
  then show ?case by simp
next
  case (Cons a as)
  from Cons.prems(1) obtain sg c e where a: "a = Finite sg c e" and me: "m \<le> e"
    by (cases a) auto
  let ?e' = "min E0 e"
  let ?v = "V0 * 10 ^ nat (E0 - ?e') + units ?e' sg c e"
  have nonneg: "0 \<le> (\<Sum>a\<leftarrow>as. \<bar>signed_units m a\<bar>)"
    by (rule sum_list_nonneg) auto
  have bound: "\<bar>V0\<bar> * 10 ^ nat (E0 - m) + \<bar>units m sg c e\<bar> < 10 ^ 28"
    using Cons.prems(5) nonneg by (simp add: a)
  note step = dec_add_exact [OF Cons.prems(2,3,4) me bound]
  have le: "m \<le> ?e'" "?e' \<le> 0"
    using Cons.prems(3,4) me by simp_all
  have "\<bar>V0\<bar> * 10 ^ nat (E0 - m) + \<bar>units m sg c e\<bar> + (\<Sum>a\<leftarrow>as. \<bar>signed_units m a\<bar>)
          < 10 ^ 28"
    using Cons.prems(5) by (simp add: a)
  with step(2) have bound':
    "\<bar>?v\<bar> * 10 ^ nat (?e' - m) + (\<Sum>a\<leftarrow>as. \<bar>signed_units m a\<bar>) < 10 ^ 28"
    by linarith
  from Cons.prems(1) have fin: "\<forall>a \<in> set as. is_finite a \<and> m \<le> exponent a" by simp
  from Cons.IH [OF fin Cons.prems(2) le bound'] obtain V where
    V: "running_total (Finite (?v < 0) (nat \<bar>?v\<bar>) ?e') as
          = Inr (Finite (V < 0) (nat \<bar>V\<bar>) (min_exp ?e' as))"
       "V * 10 ^ nat (min_exp ?e' as - m)
          = ?v * 10 ^ nat (?e' - m) + (\<Sum>a\<leftarrow>as. signed_units m a)"
    by blast
  have "running_total (Finite (V0 < 0) (nat \<bar>V0\<bar>) E0) (a # as)
          = running_total (Finite (?v < 0) (nat \<bar>?v\<bar>) ?e') as"
    by (simp only: a running_total.simps step(1) sum.case)
  with V(1) have "running_total (Finite (V0 < 0) (nat \<bar>V0\<bar>) E0) (a # as)
          = Inr (Finite (V < 0) (nat \<bar>V\<bar>) (min_exp E0 (a # as)))"
    by (simp add: a)
  moreover have "V * 10 ^ nat (min_exp E0 (a # as) - m)
          = V0 * 10 ^ nat (E0 - m) + (\<Sum>a\<leftarrow>a # as. signed_units m a)"
    using V(2) step(3) by (simp add: a)
  ultimately show ?case by blast
qed

lemma min_exp_le_elem: "a \<in> set as \<Longrightarrow> min_exp e as \<le> exponent a"
proof (induction as arbitrary: e)
  case Nil
  then show ?case by simp
next
  case (Cons b as)
  show ?case
  proof (cases "a = b")
    case True
    have "min_exp (min e (exponent b)) as \<le> min e (exponent b)" by (rule min_exp_le)
    with True show ?thesis by simp
  next
    case False
    with Cons.prems have "a \<in> set as" by simp
    from Cons.IH [OF this] show ?thesis by simp
  qed
qed


lemma running_total_exact_sum:
  assumes "\<forall>a \<in> set as. is_finite a \<and> m \<le> exponent a"
    and "Etiny \<le> m" and "m \<le> 0"
    and "(\<Sum>a\<leftarrow>as. \<bar>signed_units m a\<bar>) < 10 ^ 28"
  shows "running_total (Finite False 0 0) as = Inr (exact_sum as)"
proof -
  let ?E = "min_exp 0 as"
  have b: "\<bar>0::int\<bar> * 10 ^ nat (0 - m) + (\<Sum>a\<leftarrow>as. \<bar>signed_units m a\<bar>) < 10 ^ 28"
    using assms(4) by simp
  from running_total_exact [OF assms(1,2,3) order_refl b] obtain V where
    V: "running_total (Finite False 0 0) as = Inr (Finite (V < 0) (nat \<bar>V\<bar>) ?E)"
       "V * 10 ^ nat (?E - m) = (\<Sum>a\<leftarrow>as. signed_units m a)"
    by auto
  have mE: "m \<le> ?E" using assms(1,3) by (intro min_exp_lower) auto
  have "\<forall>a \<in> set as. is_finite a \<and> ?E \<le> exponent a"
    using assms(1) by (auto intro: min_exp_le_elem)
  from sum_signed_units_scale [OF this mE] V(2)
  have "V * 10 ^ nat (?E - m) = (\<Sum>a\<leftarrow>as. signed_units ?E a) * 10 ^ nat (?E - m)"
    by simp
  then have "V = (\<Sum>a\<leftarrow>as. signed_units ?E a)" by simp
  with V(1) show ?thesis by (simp add: exact_sum_def Let_def)
qed




lemma group_amounts_exact:
  assumes "exact_ok m rows" and "r \<in> set rows"
  shows "running_total (Finite False 0 0) (map amount (group_of (key_of r) rows))
           = Inr (exact_sum (map amount (group_of (key_of r) rows)))"
proof -
  have "\<forall>a \<in> set (map amount (group_of (key_of r) rows)). is_finite a \<and> m \<le> exponent a"
    using assms(1) by (auto simp: exact_ok_def group_of_def)
  moreover have "(\<Sum>a\<leftarrow>map amount (group_of (key_of r) rows). \<bar>signed_units m a\<bar>) < 10 ^ 28"
    using assms by (simp add: exact_ok_def comp_def)
  ultimately show ?thesis
    using assms(1) by (intro running_total_exact_sum [where m = m]) (simp_all add: exact_ok_def)
qed

lemma exact_ok_butlast:
  assumes "exact_ok m (rows @ [r])"
  shows "exact_ok m rows"
proof -
  have "(\<Sum>x\<leftarrow>group_of k rows. \<bar>signed_units m (amount x)\<bar>)
          \<le> (\<Sum>x\<leftarrow>group_of k (rows @ [r]). \<bar>signed_units m (amount x)\<bar>)" for k
    by (simp add: group_snoc)
  moreover have "(\<Sum>x\<leftarrow>group_of (key_of x) (rows @ [r]). \<bar>signed_units m (amount x)\<bar>) < 10 ^ 28"
    if "x \<in> set rows" for x
    using assms that by (simp add: exact_ok_def)
  ultimately have "(\<Sum>y\<leftarrow>group_of (key_of x) rows. \<bar>signed_units m (amount y)\<bar>) < 10 ^ 28"
    if "x \<in> set rows" for x
    using that by (meson le_less_trans)
  with assms show ?thesis by (simp add: exact_ok_def)
qed

lemma aggregate_total:
  assumes "exact_ok m rows"
  shows "\<exists>bk. aggregate [] rows = Inr bk"
  using assms
proof (induction rows rule: rev_induct)
  case Nil
  then show ?case by simp
next
  case (snoc r rows)
  from snoc.IH [OF exact_ok_butlast [OF snoc.prems]] obtain bk' where
    a: "aggregate [] rows = Inr bk'" by blast
  note inv = aggregate_groups [OF a]
  let ?g = "group_of (key_of r) rows"
  define d where "d = (case map_of bk' (key_of r) of
       None \<Rightarrow> \<lparr>total_d = Finite False 0 0, first_d = time r, last_d = time r, count_d = 0\<rparr>
     | Some d \<Rightarrow> d)"
  from inv have "case map_of bk' (key_of r) of
               None \<Rightarrow> ?g = []
             | Some d \<Rightarrow> summarizes ?g d"
    by blast
  then have old: "running_total (Finite False 0 0) (map amount ?g) = Inr (total_d d)"
    by (auto simp: d_def summarizes_def split: option.splits)
  have "running_total (Finite False 0 0) (map amount (group_of (key_of r) (rows @ [r])))
          = Inr (exact_sum (map amount (group_of (key_of r) (rows @ [r]))))"
    using snoc.prems by (intro group_amounts_exact) simp_all
  then have "dec_add (total_d d) (amount r)
               = Inr (exact_sum (map amount (group_of (key_of r) (rows @ [r]))))"
    using old by (simp add: group_snoc running_total_snoc)
  then have "\<exists>bk. by_key_row bk' r = Inr bk"
    by (simp add: by_key_row_def Let_def d_def)
  with a show ?case by (simp add: aggregate_snoc)
qed

lemma summarizes_D:
  assumes "summarizes g d"
  shows "g \<noteq> []" and "count_d d = length g"
    and "first_d d = Min (time ` set g)" and "last_d d = Max (time ` set g)"
    and "running_total (Finite False 0 0) (map amount g) = Inr (total_d d)"
  using assms unfolding summarizes_def by blast+


lemma aggregate_lookup:
  assumes "aggregate [] rows = Inr bk"
  shows "(k, d) \<in> set bk \<longleftrightarrow> map_of bk k = Some d"
    and "(k, d) \<in> set bk \<Longrightarrow> summarizes (group_of k rows) d"
    and "k \<in> fst ` set bk \<longleftrightarrow> k \<in> key_of ` set rows"
proof -
  note inv = aggregate_groups [OF assms]
  from inv have dist: "distinct (map fst bk)" by simp
  from inv have c: "case map_of bk k of None \<Rightarrow> group_of k rows = []
      | Some d \<Rightarrow> summarizes (group_of k rows) d" for k
    by blast
  show m: "(k, d) \<in> set bk \<longleftrightarrow> map_of bk k = Some d"
    using dist by simp
  show "summarizes (group_of k rows) d" if "(k, d) \<in> set bk"
    using that m c [of k] by simp
  have "k \<in> fst ` set bk \<longleftrightarrow> map_of bk k \<noteq> None"
    by (simp add: map_of_eq_None_iff)
  also have "\<dots> \<longleftrightarrow> group_of k rows \<noteq> []"
    using c [of k] by (auto dest: summarizes_D(1) split: option.splits)
  also have "\<dots> \<longleftrightarrow> k \<in> key_of ` set rows"
    by (simp add: group_empty_iff)
  finally show "k \<in> fst ` set bk \<longleftrightarrow> k \<in> key_of ` set rows" .
qed












text \<open>
  Events whose symbols and assets are strings never make the sort raise: with amounts that
  add without rounding, \<open>write_csv\<close> returns both tables.
\<close>

lemma canonical_comparable:
  assumes "canonical r" and "canonical r'"
  shows "key_comparable (key_of r) (key_of r')"
proof -
  from assms obtain s a s' a' where
    "symbol r = JStr s" "asset r = JStr a" "symbol r' = JStr s'" "asset r' = JStr a'"
    by (cases "symbol r"; cases "asset r"; cases "symbol r'"; cases "asset r'")
       (simp_all add: canonical_def)
  then show ?thesis by (simp add: key_comparable_def key_of_def)
qed

lemma write_csv_canonical:
  assumes "\<forall>r \<in> set rows. canonical r" and "exact_ok m rows"
  shows "\<exists>rep. write_csv rows = Inr (rep, [Wrote])"
proof -
  from aggregate_total [OF assms(2)] obtain bk where a: "aggregate [] rows = Inr bk" by blast
  have keys: "fst ` set bk = key_of ` set rows"
    using aggregate_lookup(3) [OF a] by blast
  have "key_comparable k1 k2" if "k1 \<in> fst ` set bk" "k2 \<in> fst ` set bk" for k1 k2
  proof -
    from that keys obtain r1 r2 where
      "r1 \<in> set rows" "k1 = key_of r1" "r2 \<in> set rows" "k2 = key_of r2"
      by (metis imageE)
    with assms(1) show ?thesis by (simp add: canonical_comparable)
  qed
  then have "sorted_items bk = Inr (sort_key fst bk)"
    by (simp add: sorted_items_def list_all_iff)
  with a show ?thesis by (simp add: write_csv_def)
qed

section \<open>Examples and \<open>main\<close>\<close>

lemma format10_Finite:
  "format10 (Finite sg c e) =
     (if sg then ''-'' else '''') @ str_of_nat (rescale10 c e div 10 ^ 10) @ ''.''
     @ replicate (10 - length (str_of_nat (rescale10 c e mod 10 ^ 10))) (CHR ''0'')
     @ str_of_nat (rescale10 c e mod 10 ^ 10)"
  by (simp add: format10_def Let_def)

lemma replicate_num: "replicate (numeral k) x = x # replicate (pred_numeral k) x"
  by (simp add: numeral_eq_Suc)

lemmas agg_eval =
  write_csv_def sorted_items_def key_comparable_def summary_row_def details_row_def
  by_key_row_def key_of_def format10_Finite rescale10_def round_half_even_def dec_fix_def
  units_def Let_def prec_def Emax_def Emin_def Etiny_def Etop_def ndigits.simps
  str_of_nat.simps ledger_event_def replicate_num less_eq_jval_def less_jval_def
  summary_header_def details_header_def



lemma get_bybit_unconfigured:
  assumes "missing (BYBIT_API_KEY cfg) \<or> missing (BYBIT_API_SECRET cfg)"
  shows "get_bybit_realized_raw cfg bybit s =
     (([], [WarnSkip ''USDT'' (RuntimeError ''Set BYBIT_API_KEY and BYBIT_API_SECRET in config.py''),
            WarnSkip ''USDC'' (RuntimeError ''Set BYBIT_API_KEY and BYBIT_API_SECRET in config.py'')]),
      s)"
  using assms by (auto simp: get_bybit_realized_raw_def bybit_signed_request_def)

lemma get_binance_unconfigured:
  assumes "missing (BINANCE_API_KEY cfg) \<or> missing (BINANCE_API_SECRET cfg)"
  shows "get_binance_funding cfg binance start_ms s =
     Some (Inl (RuntimeError ''Set BINANCE_API_KEY and BINANCE_API_SECRET env vars''), s)"
  unfolding get_binance_funding_def Let_def
  using assms by (subst funding_loop.simps) (auto simp: binance_signed_request_def)

text \<open>
  C7: without credentials for venue B, both partition requests fail inside
  \<open>get_bybit_realized_raw\<close>, which prints a warning for each and returns no positions, so
  \<open>main\<close> goes on and hands \<open>write_csv\<close> the events of venue A alone. Without
  credentials for venue A the first request raises \<open>RuntimeError\<close>, which \<open>main\<close> does
  not catch: it ends with that error, having printed and written nothing.
\<close>

theorem main_credentials:
  "(missing (BYBIT_API_KEY cfg) \<or> missing (BYBIT_API_SECRET cfg) \<longrightarrow>
      get_binance_funding cfg binance (Some 1762732800000) s = Some (Inr raw_binance, s1) \<longrightarrow>
      normalize_binance raw_binance = Inr norm_binance \<longrightarrow>
      main cfg binance bybit s =
        Some (case write_csv norm_binance of Inl e \<Rightarrow> Inl e | Inr (rep, out) \<Rightarrow> Inr rep,
              [BinanceRawRows (length raw_binance),
               WarnSkip ''USDT'' (RuntimeError ''Set BYBIT_API_KEY and BYBIT_API_SECRET in config.py''),
               WarnSkip ''USDC'' (RuntimeError ''Set BYBIT_API_KEY and BYBIT_API_SECRET in config.py''),
               InfoBybitRows 0, TotalRows (length norm_binance)]
              @ (case write_csv norm_binance of Inl e \<Rightarrow> [] | Inr (rep, out) \<Rightarrow> out),
              s1))
   \<and> (missing (BINANCE_API_KEY cfg) \<or> missing (BINANCE_API_SECRET cfg) \<longrightarrow>
        main cfg binance bybit s =
          Some (Inl (RuntimeError ''Set BINANCE_API_KEY and BINANCE_API_SECRET env vars''), [], s))"
proof (intro conjI impI)
  assume b: "missing (BYBIT_API_KEY cfg) \<or> missing (BYBIT_API_SECRET cfg)"
    and g: "get_binance_funding cfg binance (Some 1762732800000) s = Some (Inr raw_binance, s1)"
    and n: "normalize_binance raw_binance = Inr norm_binance"
  show "main cfg binance bybit s =
        Some (case write_csv norm_binance of Inl e \<Rightarrow> Inl e | Inr (rep, out) \<Rightarrow> Inr rep,
              [BinanceRawRows (length raw_binance),
               WarnSkip ''USDT'' (RuntimeError ''Set BYBIT_API_KEY and BYBIT_API_SECRET in config.py''),
               WarnSkip ''USDC'' (RuntimeError ''Set BYBIT_API_KEY and BYBIT_API_SECRET in config.py''),
               InfoBybitRows 0, TotalRows (length norm_binance)]
              @ (case write_csv norm_binance of Inl e \<Rightarrow> [] | Inr (rep, out) \<Rightarrow> out),
              s1)"
    by (simp add: main_def g n get_bybit_unconfigured [OF b] normalize_bybit_def
        split: sum.splits)
next
  assume "missing (BINANCE_API_KEY cfg) \<or> missing (BINANCE_API_SECRET cfg)"
  then show "main cfg binance bybit s =
          Some (Inl (RuntimeError ''Set BINANCE_API_KEY and BINANCE_API_SECRET env vars''), [], s)"
    by (simp add: main_def get_binance_unconfigured)
qed






text \<open>
  A run with credentials for venue A only writes both tables from the three venue-A events;
  a run with credentials for venue B only stops with the error of venue A.
\<close>

theorem main_credentials_witness:
  "main binance_only (static_api [funding_row 0, funding_row 1, funding_row 2]) usdt_down ()
     = Some (Inr \<lparr>summary_csv =
                    [summary_header,
                     [JStr ''Binance'', JStr ''BTCUSDT'', JStr ''USDT'', JStr ''funding'',
                      JStr ''0.0000000300'', JInt 3, JInt 0, JInt 2]],
                  details_csv =
                    [details_header,
                     [JStr ''Binance'', JStr ''BTCUSDT'', JStr ''USDT'', JStr ''funding'',
                      JStr ''0.0000000100'', JInt 0],
                     [JStr ''Binance'', JStr ''BTCUSDT'', JStr ''USDT'', JStr ''funding'',
                      JStr ''0.0000000100'', JInt 1],
                     [JStr ''Binance'', JStr ''BTCUSDT'', JStr ''USDT'', JStr ''funding'',
                      JStr ''0.0000000100'', JInt 2]]\<rparr>,
             [BinanceRawRows 3,
              WarnSkip ''USDT'' (RuntimeError ''Set BYBIT_API_KEY and BYBIT_API_SECRET in config.py''),
              WarnSkip ''USDC'' (RuntimeError ''Set BYBIT_API_KEY and BYBIT_API_SECRET in config.py''),
              InfoBybitRows 0, TotalRows 3, Wrote],
             ())
   \<and> main bybit_only (static_api [funding_row 0, funding_row 1, funding_row 2]) usdt_down ()
     = Some (Inl (RuntimeError ''Set BINANCE_API_KEY and BINANCE_API_SECRET env vars''), [], ())"
proof -
  let ?rows = "[funding_row 0, funding_row 1, funding_row 2]"
  have b: "missing (BYBIT_API_KEY binance_only) \<or> missing (BYBIT_API_SECRET binance_only)"
    by (simp add: binance_only_def missing_def)
  have g: "get_binance_funding binance_only (static_api ?rows) (Some 1762732800000) ()
             = Some (Inr ?rows, ())"
    unfolding get_binance_funding_def Let_def
    by (subst funding_loop.simps)
       (simp add: binance_signed_request_def binance_only_def missing_def static_api_def
          subscript_def)
  have n: "normalize_binance ?rows = Inr satoshi_events"
    by (simp add: binance_event_def funding_row_def satoshi_events_def py_eval)
  have w: "write_csv satoshi_events
     = Inr (\<lparr>summary_csv =
                    [summary_header,
                     [JStr ''Binance'', JStr ''BTCUSDT'', JStr ''USDT'', JStr ''funding'',
                      JStr ''0.0000000300'', JInt 3, JInt 0, JInt 2]],
                  details_csv =
                    [details_header,
                     [JStr ''Binance'', JStr ''BTCUSDT'', JStr ''USDT'', JStr ''funding'',
                      JStr ''0.0000000100'', JInt 0],
                     [JStr ''Binance'', JStr ''BTCUSDT'', JStr ''USDT'', JStr ''funding'',
                      JStr ''0.0000000100'', JInt 1],
                     [JStr ''Binance'', JStr ''BTCUSDT'', JStr ''USDT'', JStr ''funding'',
                      JStr ''0.0000000100'', JInt 2]]\<rparr>, [Wrote])"
    by (simp add: agg_eval satoshi_events_def)
  have a: "missing (BINANCE_API_KEY bybit_only) \<or> missing (BINANCE_API_SECRET bybit_only)"
    by (simp add: bybit_only_def missing_def)
  from main_credentials [of binance_only "static_api ?rows" "()" ?rows "()" satoshi_events usdt_down]
    b g n
  have 1: "main binance_only (static_api ?rows) usdt_down ()
      = Some (case write_csv satoshi_events of Inl e \<Rightarrow> Inl e | Inr (rep, out) \<Rightarrow> Inr rep,
              [BinanceRawRows (length ?rows),
               WarnSkip ''USDT'' (RuntimeError ''Set BYBIT_API_KEY and BYBIT_API_SECRET in config.py''),
               WarnSkip ''USDC'' (RuntimeError ''Set BYBIT_API_KEY and BYBIT_API_SECRET in config.py''),
               InfoBybitRows 0, TotalRows (length satoshi_events)]
              @ (case write_csv satoshi_events of Inl e \<Rightarrow> [] | Inr (rep, out) \<Rightarrow> out),
              ())"
    by blast
  from main_credentials [of bybit_only "static_api ?rows" "()" ?rows "()" satoshi_events usdt_down] a
  have 2: "main bybit_only (static_api ?rows) usdt_down ()
     = Some (Inl (RuntimeError ''Set BINANCE_API_KEY and BINANCE_API_SECRET env vars''), [], ())"
    by blast
  show ?thesis
    unfolding 1 2 w by (simp add: satoshi_events_def)
qed

end
